theory Spec2Isabelle
  imports Main "HOL-Library.AList"
begin

section \<open>Data model of the order lottery application (app.py)\<close>

text \<open>
  Python strings are modelled as \<open>string\<close>; text outside ASCII stands for its UTF-8 bytes.
  A Python \<open>dict\<close> is an association list in insertion order: \<open>map_of\<close> reads a key,
  \<open>AList.update\<close> is the assignment \<open>d[k] = v\<close> (an existing key keeps its place, a new
  key goes last). Counters that start at 0 and are only incremented are \<open>nat\<close>; the value
  of the number widget is an \<open>int\<close>.
\<close>

type_synonym path = string

type_synonym pool = "(string \<times> string list) list"

text \<open>A winner record: the dict with the keys for order number, platform and time.\<close>

record winner =
  w_order :: string
  w_platform :: string
  w_time :: string

text \<open>
  What \<open>json.load\<close> can return from the two files the program writes: an array of
  winner records or an object from platform to order numbers.
\<close>

datatype json = JArray "winner list" | JObject pool

text \<open>
  A file is absent, holds JSON, or exists but cannot be read as JSON (\<open>open\<close> or
  \<open>json.load\<close> raises). Files are told apart by their path string.
\<close>

datatype file_state = Absent | Unreadable | Holds json

type_synonym disk = "path \<Rightarrow> file_state"

text \<open>
  The environment of the process: the working directory (\<open>os.getcwd()\<close>) and which
  paths \<open>open(path, 'w')\<close> succeeds on.
\<close>

record env =
  cwd :: path
  writable :: "path \<Rightarrow> bool"

text \<open>\<open>st.session_state\<close> together with the disk.\<close>

record app =
  order_pool :: pool
  winners :: "winner list"
  current_draw_winners :: "winner list"
  is_rolling :: bool
  current_rolling_order :: "string \<times> string"
  final_winners :: "(string \<times> string \<times> string) list"
  reset_history_confirmed :: bool
  confirm_save :: bool
  reset_confirmed :: bool
  disk :: disk

text \<open>The messages the handlers show (\<open>st.success\<close>, \<open>st.info\<close>, \<open>st.warning\<close>, \<open>st.error\<close>).\<close>

datatype level = Success | Info | Warning | Error

datatype notice =
    Results_saved
  | Results_save_failed
  | Results_already_recorded
  | Import_succeeded
  | Import_stats nat nat nat
  | Pool_summary nat nat
  | Error_rows nat
  | Duplicate_rows nat
  | Nothing_imported
  | No_valid_data
  | No_input

fun level_of :: "notice \<Rightarrow> level" where
  "level_of Results_saved = Success"
| "level_of Results_save_failed = Warning"
| "level_of Results_already_recorded = Info"
| "level_of Import_succeeded = Success"
| "level_of (Import_stats a d e) = Info"
| "level_of (Pool_summary p n) = Success"
| "level_of (Error_rows e) = Warning"
| "level_of (Duplicate_rows d) = Warning"
| "level_of Nothing_imported = Info"
| "level_of No_valid_data = Warning"
| "level_of No_input = Warning"

subsection \<open>Paths and files\<close>

text \<open>\<open>os.path.join\<close> of two components on a POSIX system.\<close>

definition path_join :: "path \<Rightarrow> path \<Rightarrow> path" where
  "path_join a b =
     (if b \<noteq> [] \<and> hd b = CHR ''/'' then b
      else if a = [] \<or> last a = CHR ''/'' then a @ b
      else a @ ''/'' @ b)"

definition PERSIST_DIR :: path where
  "PERSIST_DIR = ''/mount/src/e-commerce-platform-order-lottery-system''"

definition WINNERS_FILE :: path where
  "WINNERS_FILE = path_join PERSIST_DIR ''winners.json''"

definition ORDER_POOL_FILE :: path where
  "ORDER_POOL_FILE = path_join PERSIST_DIR ''initial_order_pool.json''"

text \<open>
  \<open>with open(p, 'w') as f: json.dump(j, f)\<close>: \<open>None\<close> is the exception of a failed
  \<open>open\<close>, which leaves the disk as it was.
\<close>

definition write_json :: "env \<Rightarrow> path \<Rightarrow> json \<Rightarrow> disk \<Rightarrow> disk option" where
  "write_json e p j d = (if writable e p then Some (d(p := Holds j)) else None)"

text \<open>\<open>with open(p, 'r') as f: json.load(f)\<close>: \<open>None\<close> is the exception.\<close>

definition read_json :: "disk \<Rightarrow> path \<Rightarrow> json option" where
  "read_json d p = (case d p of Holds j \<Rightarrow> Some j | Absent \<Rightarrow> None | Unreadable \<Rightarrow> None)"

definition load_winners :: "disk \<Rightarrow> json" where
  "load_winners d =
     (if d WINNERS_FILE \<noteq> Absent then
        (case read_json d WINNERS_FILE of Some j \<Rightarrow> j | None \<Rightarrow> JArray [])
      else JArray [])"

definition save_winners :: "env \<Rightarrow> winner list \<Rightarrow> disk \<Rightarrow> disk \<times> bool" where
  "save_winners e winners_data d =
     (case write_json e WINNERS_FILE (JArray winners_data) d of
        Some d' \<Rightarrow> (d', True)
      | None \<Rightarrow> (d, False))"

text \<open>The six default platforms, written as the UTF-8 bytes of their names.\<close>

definition douyin :: string where
  "douyin = [CHR 0xE6, CHR 0x8A, CHR 0x96, CHR 0xE9, CHR 0x9F, CHR 0xB3]"

definition tianmao :: string where
  "tianmao = [CHR 0xE5, CHR 0xA4, CHR 0xA9, CHR 0xE7, CHR 0x8C, CHR 0xAB]"

definition jingdong :: string where
  "jingdong = [CHR 0xE4, CHR 0xBA, CHR 0xAC, CHR 0xE4, CHR 0xB8, CHR 0x9C]"

definition xiaohongshu :: string where
  "xiaohongshu = [CHR 0xE5, CHR 0xB0, CHR 0x8F, CHR 0xE7, CHR 0xBA, CHR 0xA2,
                  CHR 0xE4, CHR 0xB9, CHR 0xA6]"

definition pinduoduo :: string where
  "pinduoduo = [CHR 0xE6, CHR 0x8B, CHR 0xBC, CHR 0xE5, CHR 0xA4, CHR 0x9A,
                CHR 0xE5, CHR 0xA4, CHR 0x9A]"

definition weixin_xiaodian :: string where
  "weixin_xiaodian = [CHR 0xE5, CHR 0xBE, CHR 0xAE, CHR 0xE4, CHR 0xBF, CHR 0xA1,
                      CHR 0xE5, CHR 0xB0, CHR 0x8F, CHR 0xE5, CHR 0xBA, CHR 0x97]"

definition empty_order_pool :: pool where
  "empty_order_pool =
     [(douyin, []), (tianmao, []), (jingdong, []), (xiaohongshu, []),
      (pinduoduo, []), (weixin_xiaodian, [])]"

definition load_initial_order_pool :: "disk \<Rightarrow> json" where
  "load_initial_order_pool d =
     (if d ORDER_POOL_FILE \<noteq> Absent then
        (case read_json d ORDER_POOL_FILE of Some j \<Rightarrow> j | None \<Rightarrow> JObject empty_order_pool)
      else JObject empty_order_pool)"

text \<open>The argument is a dict by its type, so the \<open>isinstance\<close> test always passes.\<close>

definition save_initial_order_pool :: "env \<Rightarrow> pool \<Rightarrow> disk \<Rightarrow> disk \<times> bool" where
  "save_initial_order_pool e order_pool_data d =
     (case write_json e ORDER_POOL_FILE (JObject order_pool_data) d of
        Some d' \<Rightarrow> (d', True)
      | None \<Rightarrow> (d, False))"

subsection \<open>Order pool import (process_orders and the text import handler)\<close>

text \<open>
  \<open>pool[platform]\<close>. Every read in the program is of a key known to be present (taken
  from \<open>keys()\<close>, or set just before), so the \<open>KeyError\<close> branch is never taken.
\<close>

definition pool_get :: "pool \<Rightarrow> string \<Rightarrow> string list" where
  "pool_get d p = (case map_of d p of Some os \<Rightarrow> os | None \<Rightarrow> [])"

text \<open>\<open>sum(len(orders) for orders in pool.values())\<close>\<close>

definition total_orders :: "pool \<Rightarrow> nat" where
  "total_orders d = sum_list (map (\<lambda>kv. length (snd kv)) d)"

datatype import_mode = Append_mode | Replace_mode

record tally =
  new_orders :: pool
  total_new :: nat
  duplicates :: nat
  errors :: nat

text \<open>
  One pass of the loop body of \<open>process_orders\<close>. Both fields are strings, so nothing in
  the body raises and the \<open>except\<close> branch is not reached.
\<close>

fun import_pair :: "string \<times> string \<Rightarrow> tally \<Rightarrow> tally" where
  "import_pair (platform, ord) t =
     (if platform = [] \<or> ord = [] then t\<lparr>errors := errors t + 1\<rparr>
      else
        let d = (if platform \<notin> fst ` set (new_orders t)
                 then AList.update platform [] (new_orders t)
                 else new_orders t)
        in if ord \<notin> set (pool_get d platform)
           then t\<lparr>new_orders := AList.update platform (pool_get d platform @ [ord]) d,
                  total_new := total_new t + 1\<rparr>
           else t\<lparr>new_orders := d, duplicates := duplicates t + 1\<rparr>)"

fun import_loop :: "(string \<times> string) list \<Rightarrow> tally \<Rightarrow> tally" where
  "import_loop [] t = t"
| "import_loop (pr # rest) t = import_loop rest (import_pair pr t)"

definition initial_tally :: "import_mode \<Rightarrow> app \<Rightarrow> tally" where
  "initial_tally mode s =
     \<lparr>new_orders = (if mode = Append_mode then order_pool s else []),
      total_new = 0, duplicates = 0, errors = 0\<rparr>"

definition swap_guard :: "import_mode \<Rightarrow> (string \<times> string) list \<Rightarrow> tally \<Rightarrow> bool" where
  "swap_guard mode platform_order_pairs t =
     (total_new t > 0 \<or> (mode = Replace_mode \<and> length platform_order_pairs > 0))"

definition process_orders ::
  "import_mode \<Rightarrow> (string \<times> string) list \<Rightarrow> app \<Rightarrow> app \<times> notice list" where
  "process_orders mode platform_order_pairs s =
     (let t = import_loop platform_order_pairs (initial_tally mode s) in
      if swap_guard mode platform_order_pairs t then
        (s\<lparr>order_pool := new_orders t\<rparr>,
         [Import_succeeded,
          Import_stats (total_new t) (duplicates t) (errors t),
          Pool_summary (length (new_orders t)) (total_orders (new_orders t))])
      else
        (s,
         (if errors t > 0 then [Error_rows (errors t)] else []) @
         (if duplicates t > 0 then [Duplicate_rows (duplicates t)] else []) @
         (if total_new t = 0 \<and> \<not> (mode = Replace_mode \<and> length platform_order_pairs > 0)
          then [Nothing_imported] else [])))"

text \<open>
  \<open>str.strip()\<close>, \<open>str.split('\n')\<close> and \<open>str.split(',', 1)\<close>. A \<open>str\<close> is a sequence
  of code points, and \<open>strip\<close> removes the code points for which \<open>str.isspace\<close> holds,
  also those outside ASCII (U+00A0, U+3000 and others). \<open>code_points\<close> cuts the UTF-8
  bytes into code points: a continuation byte (\<open>10xxxxxx\<close>) belongs to the byte before it.
  The comma and the newline are single bytes that occur in no longer code point, so the
  two splits work on the bytes.
\<close>

definition is_continuation :: "char \<Rightarrow> bool" where
  "is_continuation c = (digit7 c \<and> \<not> digit6 c)"

fun code_points :: "string \<Rightarrow> string list" where
  "code_points [] = []"
| "code_points (c # cs) =
     (case code_points cs of
        [] \<Rightarrow> [[c]]
      | w # ws \<Rightarrow>
          if w \<noteq> [] \<and> is_continuation (hd w) then (c # w) # ws else [c] # w # ws)"

text \<open>
  The code points Python counts as whitespace: U+0009 to U+000D, U+001C to U+0020,
  U+0085, U+00A0, U+1680, U+2000 to U+200A, U+2028, U+2029, U+202F, U+205F, U+3000.
\<close>

definition whitespace :: "string list" where
  "whitespace =
     [[CHR 0x09], [CHR 0x0A], [CHR 0x0B], [CHR 0x0C], [CHR 0x0D],
      [CHR 0x1C], [CHR 0x1D], [CHR 0x1E], [CHR 0x1F], [CHR 0x20],
      [CHR 0xC2, CHR 0x85], [CHR 0xC2, CHR 0xA0], [CHR 0xE1, CHR 0x9A, CHR 0x80],
      [CHR 0xE2, CHR 0x80, CHR 0x80], [CHR 0xE2, CHR 0x80, CHR 0x81],
      [CHR 0xE2, CHR 0x80, CHR 0x82], [CHR 0xE2, CHR 0x80, CHR 0x83],
      [CHR 0xE2, CHR 0x80, CHR 0x84], [CHR 0xE2, CHR 0x80, CHR 0x85],
      [CHR 0xE2, CHR 0x80, CHR 0x86], [CHR 0xE2, CHR 0x80, CHR 0x87],
      [CHR 0xE2, CHR 0x80, CHR 0x88], [CHR 0xE2, CHR 0x80, CHR 0x89],
      [CHR 0xE2, CHR 0x80, CHR 0x8A], [CHR 0xE2, CHR 0x80, CHR 0xA8],
      [CHR 0xE2, CHR 0x80, CHR 0xA9], [CHR 0xE2, CHR 0x80, CHR 0xAF],
      [CHR 0xE2, CHR 0x81, CHR 0x9F], [CHR 0xE3, CHR 0x80, CHR 0x80]]"

definition is_space :: "string \<Rightarrow> bool" where
  "is_space w = (w \<in> set whitespace)"

definition strip :: "string \<Rightarrow> string" where
  "strip s = concat (rev (dropWhile is_space (rev (dropWhile is_space (code_points s)))))"

fun split_char :: "char \<Rightarrow> string \<Rightarrow> string list" where
  "split_char c [] = [[]]"
| "split_char c (x # xs) =
     (if x = c then [] # split_char c xs
      else (case split_char c xs of
              w # ws \<Rightarrow> (x # w) # ws
            | [] \<Rightarrow> [[x]]))"

definition split_first :: "char \<Rightarrow> string \<Rightarrow> string list" where
  "split_first c s =
     (case dropWhile (\<lambda>x. x \<noteq> c) s of
        [] \<Rightarrow> [s]
      | _ # after \<Rightarrow> [takeWhile (\<lambda>x. x \<noteq> c) s, after])"

text \<open>The loop over the lines of the text area that builds \<open>platform_order_pairs\<close>.\<close>

fun parse_lines :: "string list \<Rightarrow> (string \<times> string) list" where
  "parse_lines [] = []"
| "parse_lines (line # rest) =
     (let line' = strip line in
      if line' = [] then parse_lines rest
      else (case split_first CHR '','' line' of
              [p0, p1] \<Rightarrow> (strip p0, strip p1) # parse_lines rest
            | _ \<Rightarrow> parse_lines rest))"

definition import_text_click :: "import_mode \<Rightarrow> string \<Rightarrow> app \<Rightarrow> app \<times> notice list" where
  "import_text_click mode import_text s =
     (if strip import_text = [] then (s, [No_input])
      else
        let platform_order_pairs = parse_lines (split_char (CHR 0x0A) (strip import_text)) in
        if platform_order_pairs \<noteq> [] then process_orders mode platform_order_pairs s
        else (s, [No_valid_data]))"

subsection \<open>The draw page\<close>

text \<open>
  The widget values one run of the script reads: the platform names whose checkbox is
  ticked and the number input (between 1 and 100 in the widget).
\<close>

record inputs =
  checked :: "string list"
  winner_count :: int

text \<open>The checkboxes are made from the pool's keys, so a selected platform is a key.\<close>

definition selected_platforms :: "inputs \<Rightarrow> app \<Rightarrow> string list" where
  "selected_platforms i s =
     filter (\<lambda>platform. platform \<in> set (checked i)) (map fst (order_pool s))"

definition total_orders_in_selected_platforms :: "inputs \<Rightarrow> app \<Rightarrow> int" where
  "total_orders_in_selected_platforms i s =
     sum_list (map (\<lambda>platform. int (length (pool_get (order_pool s) platform)))
       (selected_platforms i s))"

text \<open>\<open>any(winner[0] == order for winner in st.session_state.final_winners)\<close>\<close>

definition is_already_winner :: "string \<Rightarrow> app \<Rightarrow> bool" where
  "is_already_winner ord s = (ord \<in> set (map fst (final_winners s)))"

definition eligible_orders :: "inputs \<Rightarrow> app \<Rightarrow> (string \<times> string) list" where
  "eligible_orders i s =
     concat (map (\<lambda>platform.
         map (\<lambda>ord. (ord, platform))
           (filter (\<lambda>ord. \<not> is_already_winner ord s) (pool_get (order_pool s) platform)))
       (selected_platforms i s))"

definition start_disabled :: "inputs \<Rightarrow> app \<Rightarrow> bool" where
  "start_disabled i s =
     (is_rolling s
      \<or> length (eligible_orders i s) = 0
      \<or> int (length (final_winners s)) \<ge> winner_count i
      \<or> total_orders_in_selected_platforms i s \<le> winner_count i)"

text \<open>The body of the start button's \<open>if\<close>.\<close>

definition start_click :: "inputs \<Rightarrow> app \<Rightarrow> app" where
  "start_click i s =
     (if selected_platforms i s = [] then s
      else if total_orders_in_selected_platforms i s \<le> winner_count i then s
      else if length (eligible_orders i s) = 0 then s
      else s\<lparr>is_rolling := True\<rparr>)"

text \<open>A disabled button cannot be clicked: the click changes nothing.\<close>

definition start_button :: "inputs \<Rightarrow> app \<Rightarrow> app" where
  "start_button i s = (if start_disabled i s then s else start_click i s)"

text \<open>The select button; \<open>select_time\<close> is the clock reading formatted by the handler.\<close>

definition select_click :: "string \<Rightarrow> app \<Rightarrow> app" where
  "select_click select_time s =
     (let s1 = s\<lparr>is_rolling := False\<rparr> in
      if fst (current_rolling_order s1) \<noteq> []
      then s1\<lparr>final_winners := final_winners s1 @
             [(fst (current_rolling_order s1), snd (current_rolling_order s1), select_time)]\<rparr>
      else s1)"

definition select_button :: "string \<Rightarrow> app \<Rightarrow> app" where
  "select_button select_time s = (if \<not> is_rolling s then s else select_click select_time s)"

definition reset_round_button :: "app \<Rightarrow> app" where
  "reset_round_button s =
     (if length (final_winners s) = 0 then s
      else s\<lparr>final_winners := [], is_rolling := False\<rparr>)"

text \<open>
  The rolling loop \<open>while st.session_state.is_rolling\<close> has no exit of its own: the run
  is ended from outside by the next event. The list of numbers holds one random draw per
  pass made until then: \<open>random.choice\<close> of a non-empty list with the draw \<open>r\<close> is the
  element at \<open>r mod length\<close>.
\<close>

fun rolling_loop :: "(string \<times> string) list \<Rightarrow> nat list \<Rightarrow> app \<Rightarrow> app" where
  "rolling_loop eligible [] s = s"
| "rolling_loop eligible (r # rs) s =
     rolling_loop eligible rs
       (s\<lparr>current_rolling_order := eligible ! (r mod length eligible)\<rparr>)"

text \<open>The part of a run after the buttons: the loop runs when rolling with eligible orders.\<close>

definition rolling_section :: "inputs \<Rightarrow> nat list \<Rightarrow> app \<Rightarrow> app" where
  "rolling_section i draws s =
     (if is_rolling s \<and> eligible_orders i s \<noteq> []
      then rolling_loop (eligible_orders i s) draws s
      else s)"

text \<open>The loop that appends the round's winners to the ledger, skipping known orders.\<close>

fun commit_loop ::
  "(string \<times> string \<times> string) list \<Rightarrow> winner list \<Rightarrow> bool \<Rightarrow> winner list \<times> bool" where
  "commit_loop [] ws new_winners_added = (ws, new_winners_added)"
| "commit_loop ((order_num, platform, select_time) # rest) ws new_winners_added =
     (if order_num \<notin> set (map w_order ws)
      then commit_loop rest
             (ws @ [\<lparr>w_order = order_num, w_platform = platform, w_time = select_time\<rparr>]) True
      else commit_loop rest ws new_winners_added)"

text \<open>
  The confirm button is drawn only when a run gets past the rolling section with a full
  accumulator; a click on a button that is not there changes nothing.
\<close>

definition confirm_shown :: "inputs \<Rightarrow> app \<Rightarrow> bool" where
  "confirm_shown i s =
     (\<not> (is_rolling s \<and> eligible_orders i s \<noteq> [])
      \<and> int (length (final_winners s)) = winner_count i)"

definition confirm_click :: "env \<Rightarrow> bool \<Rightarrow> app \<Rightarrow> app \<times> notice list" where
  "confirm_click e save_results s =
     (let (s1, notes) =
        (if save_results then
           (let (ws, new_winners_added) = commit_loop (final_winners s) (winners s) False;
                s' = s\<lparr>winners := ws\<rparr>
            in if new_winners_added then
                 (case save_winners e (winners s') (disk s') of
                    (d, True) \<Rightarrow> (s'\<lparr>disk := d\<rparr>, [Results_saved])
                  | (d, False) \<Rightarrow> (s'\<lparr>disk := d\<rparr>, [Results_save_failed]))
               else (s', [Results_already_recorded]))
         else (s, []))
      in (s1\<lparr>final_winners := [], current_rolling_order := ([], [])\<rparr>, notes))"

definition confirm_button :: "env \<Rightarrow> inputs \<Rightarrow> bool \<Rightarrow> app \<Rightarrow> app \<times> notice list" where
  "confirm_button e i save_results s =
     (if confirm_shown i s then confirm_click e save_results s else (s, []))"

text \<open>
  The events of the draw page. A handler that ends in \<open>st.rerun()\<close> is followed by a
  fresh run with the same widget values; after an accepted start that run reaches the
  rolling loop. The list of draws of an event holds the passes the loop makes before the
  next event ends the run. It may be empty: the handlers themselves make no draw, and the
  select handler takes \<open>current_rolling_order\<close> as it finds it. A changed widget starts
  a run of its own.
\<close>

datatype event =
    Start inputs "nat list"
  | Select string
  | Reset_round
  | Rerun inputs "nat list"
  | Confirm inputs bool

fun step :: "env \<Rightarrow> app \<Rightarrow> event \<Rightarrow> app" where
  "step e s (Start i draws) =
     (if start_disabled i s then s else rolling_section i draws (start_click i s))"
| "step e s (Select select_time) = select_button select_time s"
| "step e s Reset_round = reset_round_button s"
| "step e s (Rerun i draws) = rolling_section i draws s"
| "step e s (Confirm i save_results) = fst (confirm_button e i save_results s)"

definition run :: "env \<Rightarrow> app \<Rightarrow> event list \<Rightarrow> app" where
  "run e s evs = foldl (step e) s evs"

text \<open>
  Conditions on a sequence of events, each read in the state its event meets:
  \<open>along Q e s evs\<close> holds when \<open>Q\<close> holds of every event and the state before it.
\<close>

fun along :: "(app \<Rightarrow> event \<Rightarrow> bool) \<Rightarrow> env \<Rightarrow> app \<Rightarrow> event list \<Rightarrow> bool" where
  "along Q e s [] = True"
| "along Q e s (ev # evs) = (Q s ev \<and> along Q e (step e s ev) evs)"

text \<open>An accepted start is followed by at least one draw of the rolling loop.\<close>

fun drew_after_start :: "app \<Rightarrow> event \<Rightarrow> bool" where
  "drew_after_start s (Start i draws) = (start_disabled i s \<or> draws \<noteq> [])"
| "drew_after_start s ev = True"

text \<open>An accepted start is made under a target count of at most \<open>n\<close>.\<close>

fun started_within :: "int \<Rightarrow> app \<Rightarrow> event \<Rightarrow> bool" where
  "started_within n s (Start i draws) = (start_disabled i s \<or> winner_count i \<le> n)"
| "started_within n s ev = True"

subsection \<open>The two-step destructive operations\<close>

datatype click = First | Confirm_it | Cancel

text \<open>The \<open>try\<close> block of the ledger reset: the write, the read back and the check.\<close>

definition reset_history_files :: "env \<Rightarrow> disk \<Rightarrow> disk \<times> bool" where
  "reset_history_files e d =
     (let file_path = ORDER_POOL_FILE in
      case write_json e file_path (JArray []) d of
        None \<Rightarrow> (d, False)
      | Some d' \<Rightarrow>
          (case read_json d' file_path of
             Some (JArray content) \<Rightarrow> (d', length content = 0)
           | Some (JObject content) \<Rightarrow> (d', False)
           | None \<Rightarrow> (d', False)))"

definition confirm_reset_history :: "env \<Rightarrow> app \<Rightarrow> app" where
  "confirm_reset_history e s =
     (let s1 = s\<lparr>winners := [], current_draw_winners := []\<rparr>;
          (d1, success) = reset_history_files e (disk s1);
          (d2, saved) = save_winners e [] d1
      in s1\<lparr>disk := d2, reset_history_confirmed := False\<rparr>)"

definition reset_history_click :: "env \<Rightarrow> click \<Rightarrow> app \<Rightarrow> app" where
  "reset_history_click e c s =
     (if \<not> reset_history_confirmed s then
        (case c of First \<Rightarrow> s\<lparr>reset_history_confirmed := True\<rparr> | Confirm_it \<Rightarrow> s | Cancel \<Rightarrow> s)
      else
        (case c of
           Confirm_it \<Rightarrow> confirm_reset_history e s
         | Cancel \<Rightarrow> s\<lparr>reset_history_confirmed := False\<rparr>
         | First \<Rightarrow> s))"

definition confirm_save_initial :: "env \<Rightarrow> app \<Rightarrow> app" where
  "confirm_save_initial e s =
     (let (d1, ok) = save_initial_order_pool e (order_pool s) (disk s)
      in s\<lparr>disk := d1, confirm_save := False\<rparr>)"

definition save_initial_click :: "env \<Rightarrow> click \<Rightarrow> app \<Rightarrow> app" where
  "save_initial_click e c s =
     (if \<not> confirm_save s then
        (case c of First \<Rightarrow> s\<lparr>confirm_save := True\<rparr> | Confirm_it \<Rightarrow> s | Cancel \<Rightarrow> s)
      else
        (case c of
           Confirm_it \<Rightarrow> confirm_save_initial e s
         | Cancel \<Rightarrow> s\<lparr>confirm_save := False\<rparr>
         | First \<Rightarrow> s))"

text \<open>The \<open>try\<close> block of the pool reset, which builds its path from the working directory.\<close>

definition reset_pool_files :: "env \<Rightarrow> disk \<Rightarrow> disk \<times> bool" where
  "reset_pool_files e d =
     (let current_dir = cwd e;
          file_path = path_join current_dir ''initial_order_pool.json''
      in case write_json e file_path (JObject empty_order_pool) d of
           None \<Rightarrow> (d, False)
         | Some d' \<Rightarrow>
             (case read_json d' file_path of
                Some (JObject content) \<Rightarrow> (d', list_all (\<lambda>kv. length (snd kv) = 0) content)
              | Some (JArray content) \<Rightarrow> (d', False)
              | None \<Rightarrow> (d', False)))"

definition confirm_reset_pool :: "env \<Rightarrow> app \<Rightarrow> app" where
  "confirm_reset_pool e s =
     (let (d1, success) = reset_pool_files e (disk s)
      in s\<lparr>disk := d1, order_pool := empty_order_pool, reset_confirmed := False\<rparr>)"

definition reset_pool_click :: "env \<Rightarrow> click \<Rightarrow> app \<Rightarrow> app" where
  "reset_pool_click e c s =
     (if \<not> reset_confirmed s then
        (case c of First \<Rightarrow> s\<lparr>reset_confirmed := True\<rparr> | Confirm_it \<Rightarrow> s | Cancel \<Rightarrow> s)
      else
        (case c of
           Confirm_it \<Rightarrow> confirm_reset_pool e s
         | Cancel \<Rightarrow> s\<lparr>reset_confirmed := False\<rparr>
         | First \<Rightarrow> s))"

datatype destructive = Ledger_reset | Save_initial | Pool_reset

fun two_step :: "env \<Rightarrow> destructive \<Rightarrow> click \<Rightarrow> app \<Rightarrow> app" where
  "two_step e Ledger_reset c s = reset_history_click e c s"
| "two_step e Save_initial c s = save_initial_click e c s"
| "two_step e Pool_reset c s = reset_pool_click e c s"

fun pending :: "destructive \<Rightarrow> app \<Rightarrow> bool" where
  "pending Ledger_reset s = reset_history_confirmed s"
| "pending Save_initial s = confirm_save s"
| "pending Pool_reset s = reset_confirmed s"

fun set_pending :: "destructive \<Rightarrow> bool \<Rightarrow> app \<Rightarrow> app" where
  "set_pending Ledger_reset b s = s\<lparr>reset_history_confirmed := b\<rparr>"
| "set_pending Save_initial b s = s\<lparr>confirm_save := b\<rparr>"
| "set_pending Pool_reset b s = s\<lparr>reset_confirmed := b\<rparr>"

subsection \<open>Invariants of a round\<close>

text \<open>
  The accumulator holds no order number twice, and while rolling the current candidate is
  empty or not yet accumulated.
\<close>

definition fresh_candidate :: "app \<Rightarrow> bool" where
  "fresh_candidate s =
     (distinct (map fst (final_winners s))
      \<and> (is_rolling s \<longrightarrow>
           fst (current_rolling_order s) = []
           \<or> fst (current_rolling_order s) \<notin> set (map fst (final_winners s))))"

text \<open>The accumulator is within \<open>n\<close>, and below it while rolling.\<close>

definition within_target :: "int \<Rightarrow> app \<Rightarrow> bool" where
  "within_target n s =
     (int (length (final_winners s)) \<le> n
      \<and> (is_rolling s \<longrightarrow> int (length (final_winners s)) < n))"

subsection \<open>Concrete states used to run the model\<close>

definition no_files :: disk where
  "no_files = (\<lambda>p. Absent)"

definition blank_app :: app where
  "blank_app =
     \<lparr>order_pool = [], winners = [], current_draw_winners = [], is_rolling = False,
      current_rolling_order = ([], []), final_winners = [],
      reset_history_confirmed = False, confirm_save = False, reset_confirmed = False,
      disk = no_files\<rparr>"

definition sample_app :: app where
  "sample_app = blank_app\<lparr>order_pool := [(''A'', [''1''])]\<rparr>"

definition sample_pairs :: "(string \<times> string) list" where
  "sample_pairs = [(''A'', ''1''), (''A'', ''2''), ([], ''3''), (''B'', ''4'')]"

definition stale_pairs :: "(string \<times> string) list" where
  "stale_pairs = [(''A'', ''1''), ([], ''3'')]"

definition bad_pairs :: "(string \<times> string) list" where
  "bad_pairs = [([], ''3'')]"

definition round_app :: app where
  "round_app = blank_app
     \<lparr>order_pool := [(''A'', [''1'', ''2'', ''3''])],
      winners := [\<lparr>w_order = ''1'', w_platform = ''A'', w_time = ''t0''\<rparr>],
      final_winners := [(''1'', ''A'', ''t1''), (''2'', ''A'', ''t2'')]\<rparr>"

definition round_inputs :: inputs where
  "round_inputs = \<lparr>checked = [''A''], winner_count = 2\<rparr>"

definition read_only :: env where
  "read_only = \<lparr>cwd = ''/app'', writable = (\<lambda>p. False)\<rparr>"

definition read_write :: env where
  "read_write = \<lparr>cwd = ''/app'', writable = (\<lambda>p. True)\<rparr>"

definition recorded_app :: app where
  "recorded_app = round_app\<lparr>final_winners := [(''1'', ''A'', ''t1'')]\<rparr>"

definition draw_app :: app where
  "draw_app = blank_app\<lparr>order_pool := [(''A'', [''1'', ''2'', ''3''])]\<rparr>"

definition target_one :: inputs where
  "target_one = \<lparr>checked = [''A''], winner_count = 1\<rparr>"

definition target_two :: inputs where
  "target_two = \<lparr>checked = [''A''], winner_count = 2\<rparr>"

definition target_three :: inputs where
  "target_three = \<lparr>checked = [''A''], winner_count = 3\<rparr>"

text \<open>Two picks under the target 2, with a refused start (target 3 of 3 orders) between.\<close>

definition two_picks :: "event list" where
  "two_picks =
     [Start target_two [0], Select ''t1'', Start target_three [],
      Start target_two [0], Select ''t2'']"

text \<open>A pick, then a start whose run is ended by the select before the loop draws.\<close>

definition stale_pick :: "event list" where
  "stale_pick = [Start target_two [0], Select ''t1'', Start target_two [], Select ''t2'']"

definition stocked_app :: app where
  "stocked_app = blank_app
     \<lparr>order_pool := [(douyin, [''D2023001''])],
      disk := no_files(ORDER_POOL_FILE := Holds (JObject [(douyin, [''D2023001''])]))\<rparr>"

definition mixed_text :: string where
  "mixed_text = ''A,1'' @ [CHR 0x0A] @ ''bad line'' @ [CHR 0x0A] @ ''B,2''"

section \<open>Properties\<close>

subsection \<open>Import tallies\<close>

lemma total_orders_update:
  "total_orders (AList.update p v d) + length (pool_get d p) = total_orders d + length v"
  by (induction d) (auto simp: total_orders_def pool_get_def)

lemma pool_get_absent: "p \<notin> fst ` set d \<Longrightarrow> pool_get d p = []"
  by (induction d) (auto simp: pool_get_def)

lemma pool_get_update_same: "pool_get (AList.update p v d) p = v"
  by (simp add: pool_get_def update_conv')

lemma import_pair_total:
  "total_orders (new_orders (import_pair pr t)) + total_new t =
   total_orders (new_orders t) + total_new (import_pair pr t)"
proof (cases pr)
  case (Pair p x)
  show ?thesis
  proof (cases "p \<in> fst ` set (new_orders t)")
    case True
    then show ?thesis
      using Pair total_orders_update [of p "pool_get (new_orders t) p @ [x]" "new_orders t"]
      by (simp add: Let_def)
  next
    case False
    then show ?thesis
      using Pair total_orders_update [of p "[x]" "new_orders t"]
      by (simp add: Let_def pool_get_update_same pool_get_absent)
  qed
qed

lemma import_pair_count:
  "total_new (import_pair pr t) + duplicates (import_pair pr t) + errors (import_pair pr t) =
   Suc (total_new t + duplicates t + errors t)"
  by (cases pr) (simp add: Let_def)

lemma import_loop_total:
  "total_orders (new_orders (import_loop prs t)) + total_new t =
   total_orders (new_orders t) + total_new (import_loop prs t)"
proof (induction prs arbitrary: t)
  case Nil
  show ?case by simp
next
  case (Cons pr prs)
  show ?case
    using Cons.IH [of "import_pair pr t"] import_pair_total [of pr t] by simp
qed

lemma import_loop_count:
  "total_new (import_loop prs t) + duplicates (import_loop prs t) + errors (import_loop prs t) =
   length prs + (total_new t + duplicates t + errors t)"
proof (induction prs arbitrary: t)
  case Nil
  show ?case by simp
next
  case (Cons pr prs)
  show ?case
    using Cons.IH [of "import_pair pr t"] import_pair_count [of pr t] by simp
qed

lemma import_loop_snoc:
  "import_loop (prs @ [pr]) t = import_pair pr (import_loop prs t)"
  by (induction prs arbitrary: t) simp_all

lemma sample_run:
  "import_loop sample_pairs (initial_tally Append_mode sample_app) =
   \<lparr>new_orders = [(''A'', [''1'', ''2'']), (''B'', [''4''])],
    total_new = 2, duplicates = 1, errors = 1\<rparr>"
  by (simp add: sample_pairs_def sample_app_def blank_app_def initial_tally_def pool_get_def)

text \<open>
  Claim C5. An import in Append mode, over any sequence of (platform, order) pairs: the
  order count of the pool afterwards (the pool built by the loop, and the active pool) is
  the prior count plus the added tally; added, duplicate and errored together count the
  input pairs; and each further pair moves exactly one tally, by one: errored when a
  field is empty, duplicate when the order is already in the platform's list, added
  otherwise.
\<close>

theorem append_import_tallies:
  "total_orders (order_pool (fst (process_orders Append_mode prs s))) =
     total_orders (order_pool s) + total_new (import_loop prs (initial_tally Append_mode s))
   \<and> total_orders (new_orders (import_loop prs (initial_tally Append_mode s))) =
     total_orders (order_pool s) + total_new (import_loop prs (initial_tally Append_mode s))
   \<and> total_new (import_loop prs (initial_tally Append_mode s))
     + duplicates (import_loop prs (initial_tally Append_mode s))
     + errors (import_loop prs (initial_tally Append_mode s)) = length prs
   \<and> import_loop (prs @ [(p, x)]) t0 =
       (let t = import_loop prs t0 in
        if p = [] \<or> x = [] then t\<lparr>errors := errors t + 1\<rparr>
        else if x \<in> set (pool_get (new_orders t) p) then t\<lparr>duplicates := duplicates t + 1\<rparr>
        else t\<lparr>new_orders := AList.update p (pool_get (new_orders t) p @ [x]) (new_orders t),
               total_new := total_new t + 1\<rparr>)"
proof -
  let ?t = "import_loop prs (initial_tally Append_mode s)"
  have new: "total_orders (new_orders ?t) = total_orders (order_pool s) + total_new ?t"
    using import_loop_total [of prs "initial_tally Append_mode s"]
    by (simp add: initial_tally_def)
  have active: "total_orders (order_pool (fst (process_orders Append_mode prs s))) =
      total_orders (order_pool s) + total_new ?t"
    using new by (simp add: process_orders_def swap_guard_def Let_def)
  have count: "total_new ?t + duplicates ?t + errors ?t = length prs"
    using import_loop_count [of prs "initial_tally Append_mode s"]
    by (simp add: initial_tally_def)
  have step: "import_loop (prs @ [(p, x)]) t0 =
       (let t = import_loop prs t0 in
        if p = [] \<or> x = [] then t\<lparr>errors := errors t + 1\<rparr>
        else if x \<in> set (pool_get (new_orders t) p) then t\<lparr>duplicates := duplicates t + 1\<rparr>
        else t\<lparr>new_orders := AList.update p (pool_get (new_orders t) p @ [x]) (new_orders t),
               total_new := total_new t + 1\<rparr>)"
  proof (cases "p \<in> fst ` set (new_orders (import_loop prs t0))")
    case True
    then show ?thesis by (simp add: import_loop_snoc Let_def)
  next
    case False
    then show ?thesis
      by (simp add: import_loop_snoc Let_def pool_get_absent pool_get_update_same)
  qed
  show ?thesis using new active count step by blast
qed

theorem append_import_tallies_witness:
  "total_orders (order_pool (fst (process_orders Append_mode sample_pairs sample_app))) = 3
   \<and> total_new (import_loop sample_pairs (initial_tally Append_mode sample_app)) = 2
   \<and> duplicates (import_loop sample_pairs (initial_tally Append_mode sample_app)) = 1
   \<and> errors (import_loop sample_pairs (initial_tally Append_mode sample_app)) = 1
   \<and> duplicates (import_loop (sample_pairs @ [(''A'', ''2'')])
        (initial_tally Append_mode sample_app)) = 2"
proof -
  have pool: "total_orders (order_pool sample_app) = 1"
    by (simp add: sample_app_def blank_app_def total_orders_def)
  have dup: "''2'' \<in> set (pool_get [(''A'', [''1'', ''2'']), (''B'', [''4''])] ''A'')"
    by (simp add: pool_get_def)
  show ?thesis
    using append_import_tallies
      [of sample_pairs sample_app "''A''" "''2''" "initial_tally Append_mode sample_app"]
    by (simp add: sample_run pool dup)
qed

subsection \<open>The guard on swapping the imported pool in\<close>

text \<open>
  Claim C4. For every import, in either mode and over any pair sequence, the pool built by
  the loop becomes the active pool (and the success message is shown) exactly when at
  least one order was added, or the mode is Replace and the pair sequence is not empty;
  otherwise the whole state, the active pool included, is as it was.
\<close>

theorem import_swap_guard:
  "(Import_succeeded \<in> set (snd (process_orders mode prs s))) =
     (0 < total_new (import_loop prs (initial_tally mode s)) \<or> (mode = Replace_mode \<and> prs \<noteq> []))
   \<and> fst (process_orders mode prs s) =
     (if 0 < total_new (import_loop prs (initial_tally mode s)) \<or> (mode = Replace_mode \<and> prs \<noteq> [])
      then s\<lparr>order_pool := new_orders (import_loop prs (initial_tally mode s))\<rparr>
      else s)"
  by (simp add: process_orders_def swap_guard_def Let_def)

theorem import_swap_guard_witness:
  "fst (process_orders Append_mode stale_pairs sample_app) = sample_app
   \<and> Import_succeeded \<notin> set (snd (process_orders Append_mode stale_pairs sample_app))
   \<and> order_pool (fst (process_orders Replace_mode bad_pairs sample_app)) = []
   \<and> Import_succeeded \<in> set (snd (process_orders Replace_mode bad_pairs sample_app))"
proof -
  have a: "total_new (import_loop stale_pairs (initial_tally Append_mode sample_app)) = 0"
    by (simp add: stale_pairs_def sample_app_def blank_app_def initial_tally_def pool_get_def)
  have r: "new_orders (import_loop bad_pairs (initial_tally Replace_mode sample_app)) = []"
    by (simp add: bad_pairs_def initial_tally_def)
  have ne: "bad_pairs \<noteq> []"
    by (simp add: bad_pairs_def)
  show ?thesis
    using import_swap_guard [of Append_mode stale_pairs sample_app]
      import_swap_guard [of Replace_mode bad_pairs sample_app]
    by (simp add: a r ne)
qed

subsection \<open>Committing a round to the winner ledger\<close>

lemma round_commit:
  "commit_loop (final_winners round_app) (winners round_app) False =
     ([\<lparr>w_order = ''1'', w_platform = ''A'', w_time = ''t0''\<rparr>,
       \<lparr>w_order = ''2'', w_platform = ''A'', w_time = ''t2''\<rparr>], True)"
  by (simp add: round_app_def blank_app_def)

lemma commit_loop_known:
  "set (map fst es) \<subseteq> set (map w_order ws) \<Longrightarrow> commit_loop es ws a = (ws, a)"
  by (induction es ws a rule: commit_loop.induct) auto

lemma commit_loop_orders:
  "set (map w_order (fst (commit_loop es ws a))) = set (map w_order ws) \<union> set (map fst es)"
  by (induction es ws a rule: commit_loop.induct) auto

lemma commit_loop_distinct:
  "distinct (map w_order ws) \<Longrightarrow> distinct (map w_order (fst (commit_loop es ws a)))"
  by (induction es ws a rule: commit_loop.induct) auto

lemma commit_loop_count:
  "length (filter (\<lambda>w. w_order w = x) (fst (commit_loop es ws a))) =
     (if x \<in> set (map w_order ws) then length (filter (\<lambda>w. w_order w = x) ws)
      else if x \<in> set (map fst es) then 1 else 0)"
proof (induction es ws a rule: commit_loop.induct)
  case (1 ws a)
  then show ?case by (auto simp: filter_empty_conv)
next
  case (2 order_num platform select_time rest ws a)
  then show ?case by (auto simp: filter_empty_conv)
qed

lemma commit_loop_flag:
  "snd (commit_loop es ws a) = (a \<or> \<not> set (map fst es) \<subseteq> set (map w_order ws))"
  by (induction es ws a rule: commit_loop.induct) auto

lemma commit_loop_again:
  "commit_loop es (fst (commit_loop es ws a)) b = (fst (commit_loop es ws a), b)"
proof (rule commit_loop_known)
  show "set (map fst es) \<subseteq> set (map w_order (fst (commit_loop es ws a)))"
    using commit_loop_orders [of es ws a] by blast
qed

text \<open>
  Claim C7. Committing to the ledger is idempotent on the order number, for every ledger
  and every sequence of entries: an entry whose order number is already in the ledger
  appends nothing; committing the same entries a second time leaves the ledger as the
  first commit made it and reports that nothing was added; an order number that was not
  in the ledger has at most one record after the two commits, and a ledger without
  repeated order numbers stays so; and a confirmation whose orders are all recorded
  already shows the informational message, not a warning or an error, and writes nothing.
\<close>

theorem commit_idempotent:
  "(x \<in> set (map w_order ws) \<longrightarrow> commit_loop [(x, p, t)] ws a = (ws, a))
   \<and> commit_loop es (fst (commit_loop es ws a)) False = (fst (commit_loop es ws a), False)
   \<and> (x \<notin> set (map w_order ws) \<longrightarrow>
        length (filter (\<lambda>w. w_order w = x)
          (fst (commit_loop es (fst (commit_loop es ws a)) False))) \<le> 1)
   \<and> (distinct (map w_order ws) \<longrightarrow>
        distinct (map w_order (fst (commit_loop es (fst (commit_loop es ws a)) False))))
   \<and> (set (map fst (final_winners s)) \<subseteq> set (map w_order (winners s)) \<longrightarrow>
        snd (confirm_click e True s) = [Results_already_recorded]
        \<and> winners (fst (confirm_click e True s)) = winners s
        \<and> disk (fst (confirm_click e True s)) = disk s
        \<and> level_of Results_already_recorded = Info)"
proof -
  have one: "x \<in> set (map w_order ws) \<longrightarrow> commit_loop [(x, p, t)] ws a = (ws, a)"
    by simp
  have again: "commit_loop es (fst (commit_loop es ws a)) False = (fst (commit_loop es ws a), False)"
    by (rule commit_loop_again)
  have cnt: "x \<notin> set (map w_order ws) \<longrightarrow>
        length (filter (\<lambda>w. w_order w = x)
          (fst (commit_loop es (fst (commit_loop es ws a)) False))) \<le> 1"
    by (simp add: again commit_loop_count)
  have dist: "distinct (map w_order ws) \<longrightarrow>
        distinct (map w_order (fst (commit_loop es (fst (commit_loop es ws a)) False)))"
    by (simp add: again commit_loop_distinct)
  have info: "set (map fst (final_winners s)) \<subseteq> set (map w_order (winners s)) \<longrightarrow>
        snd (confirm_click e True s) = [Results_already_recorded]
        \<and> winners (fst (confirm_click e True s)) = winners s
        \<and> disk (fst (confirm_click e True s)) = disk s
        \<and> level_of Results_already_recorded = Info"
    by (simp add: confirm_click_def commit_loop_known)
  show ?thesis using one again cnt dist info by blast
qed

theorem commit_idempotent_witness:
  "commit_loop [(''1'', ''A'', ''t9'')] (winners round_app) False = (winners round_app, False)
   \<and> commit_loop (final_winners round_app)
        (fst (commit_loop (final_winners round_app) (winners round_app) False)) False =
      ([\<lparr>w_order = ''1'', w_platform = ''A'', w_time = ''t0''\<rparr>,
        \<lparr>w_order = ''2'', w_platform = ''A'', w_time = ''t2''\<rparr>], False)
   \<and> length (filter (\<lambda>w. w_order w = ''2'')
        (fst (commit_loop (final_winners round_app)
          (fst (commit_loop (final_winners round_app) (winners round_app) False)) False))) \<le> 1
   \<and> snd (confirm_click read_write True recorded_app) = [Results_already_recorded]
   \<and> winners (fst (confirm_click read_write True recorded_app)) = winners recorded_app"
proof -
  have k1: "''1'' \<in> set (map w_order (winners round_app))"
    by (simp add: round_app_def blank_app_def)
  have k2: "''2'' \<notin> set (map w_order (winners round_app))"
    by (simp add: round_app_def blank_app_def)
  have d: "distinct (map w_order (winners round_app))"
    by (simp add: round_app_def blank_app_def)
  have r: "set (map fst (final_winners recorded_app)) \<subseteq> set (map w_order (winners recorded_app))"
    by (simp add: recorded_app_def round_app_def blank_app_def)
  show ?thesis
    using commit_idempotent [of "''1''" "winners round_app" "''A''" "''t9''" False
        "final_winners round_app" recorded_app read_write]
      commit_idempotent [of "''2''" "winners round_app" "''A''" "''t9''" False
        "final_winners round_app" recorded_app read_write]
      k1 k2 d r
    by (simp add: round_commit)
qed

text \<open>
  Claim C10. When a round is confirmed with saving requested, some entry is new and
  \<open>save_winners\<close> returns false, the appended records stay in the winner ledger in
  memory (every order number of the round is then in the ledger) while the disk is as it
  was, and the round accumulator and the current candidate are cleared all the same.
\<close>

theorem confirm_keeps_unsaved_records:
  assumes "confirm_shown i s"
    and "snd (commit_loop (final_winners s) (winners s) False)"
    and "\<not> snd (save_winners e (fst (commit_loop (final_winners s) (winners s) False)) (disk s))"
  shows "winners (fst (confirm_button e i True s)) =
           fst (commit_loop (final_winners s) (winners s) False)
         \<and> set (map fst (final_winners s)) \<subseteq> set (map w_order (winners (fst (confirm_button e i True s))))
         \<and> disk (fst (confirm_button e i True s)) = disk s
         \<and> final_winners (fst (confirm_button e i True s)) = []
         \<and> current_rolling_order (fst (confirm_button e i True s)) = ([], [])
         \<and> snd (confirm_button e i True s) = [Results_save_failed]"
proof -
  obtain ws b where c: "commit_loop (final_winners s) (winners s) False = (ws, b)"
    by (cases "commit_loop (final_winners s) (winners s) False")
  have b: "b" using assms(2) c by simp
  have w: "\<not> writable e WINNERS_FILE"
    using assms(3) c by (auto simp: save_winners_def write_json_def split: if_splits)
  have sub: "set (map fst (final_winners s)) \<subseteq> set (map w_order ws)"
    using commit_loop_orders [of "final_winners s" "winners s" False] c by auto
  show ?thesis
    using assms(1) b w sub
    by (simp add: confirm_button_def confirm_click_def c save_winners_def write_json_def)
qed

theorem confirm_keeps_unsaved_records_witness:
  "winners (fst (confirm_button read_only round_inputs True round_app)) =
     [\<lparr>w_order = ''1'', w_platform = ''A'', w_time = ''t0''\<rparr>,
      \<lparr>w_order = ''2'', w_platform = ''A'', w_time = ''t2''\<rparr>]
   \<and> disk (fst (confirm_button read_only round_inputs True round_app)) WINNERS_FILE = Absent
   \<and> final_winners (fst (confirm_button read_only round_inputs True round_app)) = []
   \<and> current_rolling_order (fst (confirm_button read_only round_inputs True round_app)) = ([], [])
   \<and> snd (confirm_button read_only round_inputs True round_app) = [Results_save_failed]"
proof -
  have shown: "confirm_shown round_inputs round_app"
    by (simp add: confirm_shown_def round_inputs_def round_app_def blank_app_def)
  have added: "snd (commit_loop (final_winners round_app) (winners round_app) False)"
    by (simp add: round_commit)
  have failed: "\<not> snd (save_winners read_only
      (fst (commit_loop (final_winners round_app) (winners round_app) False)) (disk round_app))"
    by (simp add: save_winners_def write_json_def read_only_def)
  have d: "disk round_app WINNERS_FILE = Absent"
    by (simp add: round_app_def blank_app_def no_files_def)
  show ?thesis
    using confirm_keeps_unsaved_records [OF shown added failed] d
    by (simp add: round_commit)
qed

subsection \<open>Starting a round\<close>

lemma selected_empty_eligible: "selected_platforms i s = [] \<Longrightarrow> eligible_orders i s = []"
  by (simp add: eligible_orders_def)

text \<open>
  Claim C6. The start button takes an idle round to rolling only when a platform is
  selected, the eligible set is not empty, the accumulator is smaller than the target
  count and the selected platforms hold more orders than the target count; when any of
  the four fails the click changes nothing. (With all four and an idle round it does
  start, and changes the rolling flag only.)
\<close>

theorem start_only_when_permitted:
  "(is_rolling (start_button i s) \<and> \<not> is_rolling s \<longrightarrow>
      selected_platforms i s \<noteq> [] \<and> eligible_orders i s \<noteq> []
      \<and> int (length (final_winners s)) < winner_count i
      \<and> winner_count i < total_orders_in_selected_platforms i s)
   \<and> (selected_platforms i s = [] \<or> eligible_orders i s = []
       \<or> winner_count i \<le> int (length (final_winners s))
       \<or> total_orders_in_selected_platforms i s \<le> winner_count i \<longrightarrow>
      start_button i s = s)
   \<and> (\<not> is_rolling s \<and> selected_platforms i s \<noteq> [] \<and> eligible_orders i s \<noteq> []
       \<and> int (length (final_winners s)) < winner_count i
       \<and> winner_count i < total_orders_in_selected_platforms i s \<longrightarrow>
      start_button i s = s\<lparr>is_rolling := True\<rparr>)"
  using selected_empty_eligible [of i s]
  by (auto simp: start_button_def start_disabled_def start_click_def)

theorem start_only_when_permitted_witness:
  "start_button target_two draw_app = draw_app\<lparr>is_rolling := True\<rparr>
   \<and> start_button target_three draw_app = draw_app
   \<and> start_button target_two (draw_app\<lparr>order_pool := []\<rparr>) = draw_app\<lparr>order_pool := []\<rparr>"
proof -
  have el: "eligible_orders target_two draw_app = [(''1'', ''A''), (''2'', ''A''), (''3'', ''A'')]"
    by (simp add: draw_app_def blank_app_def target_two_def eligible_orders_def
        selected_platforms_def is_already_winner_def pool_get_def)
  have sel: "selected_platforms target_two draw_app = [''A'']"
    by (simp add: draw_app_def blank_app_def target_two_def selected_platforms_def)
  have tot2: "total_orders_in_selected_platforms target_two draw_app = 3"
    by (simp add: draw_app_def blank_app_def target_two_def selected_platforms_def
        total_orders_in_selected_platforms_def pool_get_def)
  have tot3: "total_orders_in_selected_platforms target_three draw_app = 3"
    by (simp add: draw_app_def blank_app_def target_three_def selected_platforms_def
        total_orders_in_selected_platforms_def pool_get_def)
  have none: "selected_platforms target_two (draw_app\<lparr>order_pool := []\<rparr>) = []"
    by (simp add: selected_platforms_def)
  have st: "\<not> is_rolling draw_app" "final_winners draw_app = []"
    by (simp_all add: draw_app_def blank_app_def)
  have wc: "winner_count target_two = 2" "winner_count target_three = 3"
    by (simp_all add: target_two_def target_three_def)
  show ?thesis
    using start_only_when_permitted [of target_two draw_app]
      start_only_when_permitted [of target_three draw_app]
      start_only_when_permitted [of target_two "draw_app\<lparr>order_pool := []\<rparr>"]
    by (simp add: el sel tot2 tot3 none st wc)
qed

subsection \<open>The round accumulator over sequences of events\<close>

lemma eligible_fresh:
  "x \<in> set (eligible_orders i s) \<Longrightarrow> fst x \<notin> set (map fst (final_winners s))"
  by (force simp: eligible_orders_def is_already_winner_def)

lemma rolling_loop_other:
  "final_winners (rolling_loop el ds s) = final_winners s
   \<and> is_rolling (rolling_loop el ds s) = is_rolling s"
  by (induction ds arbitrary: s) simp_all

lemma rolling_loop_candidate:
  "el \<noteq> [] \<Longrightarrow> ds \<noteq> [] \<Longrightarrow> current_rolling_order (rolling_loop el ds s) \<in> set el"
proof (induction ds arbitrary: s)
  case Nil
  then show ?case by simp
next
  case (Cons r rs)
  show ?case
  proof (cases rs)
    case Nil
    then show ?thesis using Cons.prems by simp
  next
    case (Cons r' rs')
    then show ?thesis using Cons.IH Cons.prems by simp
  qed
qed

lemma rolling_section_fresh:
  assumes "fresh_candidate s"
  shows "fresh_candidate (rolling_section i ds s)"
proof (cases "is_rolling s \<and> eligible_orders i s \<noteq> [] \<and> ds \<noteq> []")
  case True
  then have "current_rolling_order (rolling_loop (eligible_orders i s) ds s)
      \<in> set (eligible_orders i s)"
    using rolling_loop_candidate [of "eligible_orders i s" ds s] by simp
  then have "fst (current_rolling_order (rolling_loop (eligible_orders i s) ds s))
      \<notin> set (map fst (final_winners s))"
    by (rule eligible_fresh)
  then show ?thesis
    using assms True rolling_loop_other [of "eligible_orders i s" ds s]
    by (simp add: fresh_candidate_def rolling_section_def)
next
  case False
  then show ?thesis using assms by (auto simp: rolling_section_def)
qed

lemma rolling_section_other:
  "final_winners (rolling_section i ds s) = final_winners s
   \<and> is_rolling (rolling_section i ds s) = is_rolling s"
  using rolling_loop_other [of "eligible_orders i s" ds s]
  by (simp add: rolling_section_def)

lemma eligible_orders_rolling [simp]:
  "eligible_orders i (s\<lparr>is_rolling := b\<rparr>) = eligible_orders i s"
  by (simp add: eligible_orders_def selected_platforms_def is_already_winner_def)

lemma start_fresh:
  assumes "fresh_candidate s" and "\<not> start_disabled i s" and "ds \<noteq> []"
  shows "fresh_candidate (rolling_section i ds (start_click i s))"
proof -
  have el: "eligible_orders i s \<noteq> []"
    using assms(2) by (simp add: start_disabled_def)
  have sel: "selected_platforms i s \<noteq> []"
    using el selected_empty_eligible by blast
  have st: "start_click i s = s\<lparr>is_rolling := True\<rparr>"
    using assms(2) el sel by (simp add: start_click_def start_disabled_def)
  have "current_rolling_order (rolling_loop (eligible_orders i s) ds (s\<lparr>is_rolling := True\<rparr>))
      \<in> set (eligible_orders i s)"
    using rolling_loop_candidate [of "eligible_orders i s" ds] el assms(3) by simp
  then have "fst (current_rolling_order
        (rolling_loop (eligible_orders i s) ds (s\<lparr>is_rolling := True\<rparr>)))
      \<notin> set (map fst (final_winners s))"
    by (rule eligible_fresh)
  then show ?thesis
    using assms(1) el st
      rolling_loop_other [of "eligible_orders i s" ds "s\<lparr>is_rolling := True\<rparr>"]
    by (simp add: fresh_candidate_def rolling_section_def)
qed

lemma confirm_click_round:
  "final_winners (fst (confirm_click e sv s)) = []
   \<and> current_rolling_order (fst (confirm_click e sv s)) = ([], [])
   \<and> is_rolling (fst (confirm_click e sv s)) = is_rolling s"
  by (simp add: confirm_click_def Let_def split: prod.splits bool.splits)

lemma step_fresh:
  assumes "fresh_candidate s" and "drew_after_start s ev"
  shows "fresh_candidate (step e s ev)"
proof (cases ev)
  case (Start i ds)
  then show ?thesis using assms start_fresh by auto
next
  case (Select t)
  then show ?thesis
    using assms(1) by (auto simp: fresh_candidate_def select_button_def select_click_def Let_def)
next
  case Reset_round
  then show ?thesis
    using assms(1) by (auto simp: fresh_candidate_def reset_round_button_def)
next
  case (Rerun i ds)
  then show ?thesis using assms(1) rolling_section_fresh by simp
next
  case (Confirm i sv)
  then show ?thesis
    using assms(1) confirm_click_round [of e sv s]
    by (simp add: confirm_button_def fresh_candidate_def)
qed

lemma step_within:
  assumes "within_target n s" and "started_within n s ev" and "0 \<le> n"
  shows "within_target n (step e s ev)"
proof (cases ev)
  case (Start i ds)
  show ?thesis
  proof (cases "start_disabled i s")
    case True
    then show ?thesis using assms(1) Start by simp
  next
    case False
    have el: "eligible_orders i s \<noteq> []"
      using False by (simp add: start_disabled_def)
    have st: "start_click i s = s\<lparr>is_rolling := True\<rparr>"
      using False el selected_empty_eligible [of i s]
      by (auto simp: start_click_def start_disabled_def)
    have "int (length (final_winners s)) < n"
      using False assms(2) Start by (simp add: start_disabled_def)
    then show ?thesis
      using Start False st rolling_section_other [of i ds "s\<lparr>is_rolling := True\<rparr>"]
      by (simp add: within_target_def)
  qed
next
  case (Select t)
  then show ?thesis
    using assms(1) by (auto simp: within_target_def select_button_def select_click_def Let_def)
next
  case Reset_round
  then show ?thesis
    using assms(1,3) by (auto simp: within_target_def reset_round_button_def)
next
  case (Rerun i ds)
  then show ?thesis
    using assms(1) rolling_section_other [of i ds s] by (simp add: within_target_def)
next
  case (Confirm i sv)
  show ?thesis
  proof (cases "confirm_shown i s")
    case True
    then have "\<not> (is_rolling s \<and> eligible_orders i s \<noteq> [])"
      by (simp add: confirm_shown_def)
    then show ?thesis
      using Confirm True assms(1,3) confirm_click_round [of e sv s]
      by (auto simp: confirm_button_def within_target_def)
  next
    case False
    then show ?thesis using Confirm assms(1) by (simp add: confirm_button_def)
  qed
qed

lemma run_fresh:
  "fresh_candidate s \<Longrightarrow> along drew_after_start e s evs \<Longrightarrow> fresh_candidate (run e s evs)"
  unfolding run_def
  by (induction evs arbitrary: s) (simp_all add: step_fresh)

lemma run_within:
  "within_target n s \<Longrightarrow> 0 \<le> n \<Longrightarrow> along (started_within n) e s evs \<Longrightarrow>
   within_target n (run e s evs)"
  unfolding run_def
  by (induction evs arbitrary: s) (simp_all add: step_within)

text \<open>
  Claim C3, as amended. From a fresh round (empty accumulator, idle), after every
  sequence of start, select, reset, rerun and confirm events, with any widget values at
  each event: the order numbers of the accumulator are pairwise distinct, provided the
  rolling loop makes at least one draw after every accepted start before the next event;
  and for every \<open>n\<close> from 0 on, the size of the accumulator does not exceed \<open>n\<close> when
  every accepted start was made under a target count of at most \<open>n\<close>. So the size never
  exceeds the largest target count under which a round was started.
\<close>

theorem round_accumulator_invariant:
  assumes "final_winners s0 = []" and "\<not> is_rolling s0"
  shows "(along drew_after_start e s0 evs \<longrightarrow>
            distinct (map fst (final_winners (run e s0 evs))))
         \<and> (0 \<le> n \<and> along (started_within n) e s0 evs \<longrightarrow>
              int (length (final_winners (run e s0 evs))) \<le> n)"
proof -
  have d: "distinct (map fst (final_winners (run e s0 evs)))"
    if "along drew_after_start e s0 evs"
  proof -
    have "fresh_candidate s0"
      using assms by (simp add: fresh_candidate_def)
    then have "fresh_candidate (run e s0 evs)"
      using that by (rule run_fresh)
    then show ?thesis by (simp add: fresh_candidate_def)
  qed
  have b: "int (length (final_winners (run e s0 evs))) \<le> n"
    if "0 \<le> n" and "along (started_within n) e s0 evs"
  proof -
    have "within_target n s0"
      using assms that(1) by (simp add: within_target_def)
    then have "within_target n (run e s0 evs)"
      using that by (rule run_within)
    then show ?thesis by (simp add: within_target_def)
  qed
  show ?thesis using d b by blast
qed

lemmas draw_defs =
  draw_app_def blank_app_def target_one_def target_two_def target_three_def
  start_disabled_def start_click_def eligible_orders_def selected_platforms_def
  is_already_winner_def total_orders_in_selected_platforms_def pool_get_def
  rolling_section_def select_button_def select_click_def Let_def

lemma two_picks_run:
  "run read_write draw_app two_picks =
   draw_app\<lparr>current_rolling_order := (''2'', ''A''),
     final_winners := [(''1'', ''A'', ''t1''), (''2'', ''A'', ''t2'')]\<rparr>"
  by (simp add: two_picks_def run_def draw_defs)

lemma two_picks_along:
  "along drew_after_start read_write draw_app two_picks
   \<and> along (started_within 2) read_write draw_app two_picks"
  by (simp add: two_picks_def draw_defs)

lemma stale_pick_run:
  "final_winners (run read_write draw_app stale_pick) =
     [(''1'', ''A'', ''t1''), (''1'', ''A'', ''t2'')]"
  by (simp add: stale_pick_def run_def draw_defs)

theorem round_accumulator_invariant_witness:
  "distinct (map fst (final_winners (run read_write draw_app two_picks)))
   \<and> int (length (final_winners (run read_write draw_app two_picks))) \<le> 2
   \<and> length (final_winners (run read_write draw_app two_picks)) = 2"
proof -
  have a: "final_winners draw_app = []" and b: "\<not> is_rolling draw_app"
    by (simp_all add: draw_app_def blank_app_def)
  show ?thesis
    using round_accumulator_invariant [OF a b, of read_write two_picks 2] two_picks_along
    by (simp add: two_picks_run)
qed

text \<open>
  Claim C3 as stated fails in both halves. The bound fails when the target is lowered:
  two orders are picked under the target 2, then the number input is set to 1 (a run of
  the script with the new value); the accumulator holds 2, the target is 1. The order
  numbers repeat when a select is handled before the loop has drawn after a start: the
  candidate is still the order picked before, and the select handler appends it again.
\<close>

theorem round_accumulator_counterexample:
  "\<not> distinct (map fst (final_winners (run read_write draw_app stale_pick)))
   \<and> \<not> int (length (final_winners (run read_write draw_app (two_picks @ [Rerun target_one []]))))
         \<le> winner_count target_one"
proof -
  have dup: "\<not> distinct (map fst (final_winners (run read_write draw_app stale_pick)))"
    by (simp add: stale_pick_run)
  have "run read_write draw_app (two_picks @ [Rerun target_one []]) =
      step read_write (run read_write draw_app two_picks) (Rerun target_one [])"
    by (simp add: run_def)
  then have "length (final_winners (run read_write draw_app (two_picks @ [Rerun target_one []]))) = 2"
    using rolling_section_other [of target_one "[]" "run read_write draw_app two_picks"]
    by (simp add: two_picks_run)
  then have low: "\<not> int (length (final_winners
        (run read_write draw_app (two_picks @ [Rerun target_one []])))) \<le> winner_count target_one"
    by (simp add: target_one_def)
  show ?thesis using dup low by (rule conjI)
qed

subsection \<open>Two-step confirmation and the files the resets write\<close>

lemma files_differ: "ORDER_POOL_FILE \<noteq> WINNERS_FILE"
  by (simp add: ORDER_POOL_FILE_def WINNERS_FILE_def path_join_def PERSIST_DIR_def)

lemma set_pending_pending: "pending op (set_pending op b s) = b"
  by (cases op) simp_all

text \<open>
  Claim C8. For each of the three destructive operations (ledger reset, save as initial
  data, pool reset): the first click only sets the operation's pending flag; a cancel
  only clears it; a click on a button that is not shown changes nothing; the confirming
  click clears the flag; and whenever a click changes anything besides the operation's
  own flag, it is the confirming click on a pending operation. The confirming click does
  the work: it empties the ledger, installs the empty pool, or writes the snapshot.
\<close>

theorem two_step_confirmation:
  "(\<not> pending op s \<longrightarrow> two_step e op First s = set_pending op True s)
   \<and> (pending op s \<longrightarrow> two_step e op Cancel s = set_pending op False s)
   \<and> (pending op s \<longrightarrow> two_step e op First s = s)
   \<and> (\<not> pending op s \<longrightarrow> two_step e op Cancel s = s \<and> two_step e op Confirm_it s = s)
   \<and> (pending op s \<longrightarrow> \<not> pending op (two_step e op Confirm_it s))
   \<and> (two_step e op c s \<noteq> set_pending op (pending op (two_step e op c s)) s \<longrightarrow>
        c = Confirm_it \<and> pending op s)
   \<and> (reset_history_confirmed s \<longrightarrow> winners (two_step e Ledger_reset Confirm_it s) = [])
   \<and> (reset_confirmed s \<longrightarrow> order_pool (two_step e Pool_reset Confirm_it s) = empty_order_pool)
   \<and> (confirm_save s \<and> writable e ORDER_POOL_FILE \<longrightarrow>
        disk (two_step e Save_initial Confirm_it s) ORDER_POOL_FILE = Holds (JObject (order_pool s)))"
proof -
  have eff: "(reset_history_confirmed s \<longrightarrow> winners (two_step e Ledger_reset Confirm_it s) = [])
   \<and> (reset_confirmed s \<longrightarrow> order_pool (two_step e Pool_reset Confirm_it s) = empty_order_pool)
   \<and> (confirm_save s \<and> writable e ORDER_POOL_FILE \<longrightarrow>
        disk (two_step e Save_initial Confirm_it s) ORDER_POOL_FILE = Holds (JObject (order_pool s)))"
    by (simp add: reset_history_click_def confirm_reset_history_def
        save_initial_click_def confirm_save_initial_def save_initial_order_pool_def
        write_json_def reset_pool_click_def confirm_reset_pool_def Let_def split: prod.splits)
  have flag: "pending op s \<longrightarrow> \<not> pending op (two_step e op Confirm_it s)"
    by (cases op)
      (simp_all add: reset_history_click_def confirm_reset_history_def
        save_initial_click_def confirm_save_initial_def
        reset_pool_click_def confirm_reset_pool_def Let_def split: prod.splits)
  have only: "two_step e op c s \<noteq> set_pending op (pending op (two_step e op c s)) s \<longrightarrow>
        c = Confirm_it \<and> pending op s"
    by (cases op; cases c)
      (simp_all add: reset_history_click_def save_initial_click_def reset_pool_click_def)
  have rest: "(\<not> pending op s \<longrightarrow> two_step e op First s = set_pending op True s)
   \<and> (pending op s \<longrightarrow> two_step e op Cancel s = set_pending op False s)
   \<and> (pending op s \<longrightarrow> two_step e op First s = s)
   \<and> (\<not> pending op s \<longrightarrow> two_step e op Cancel s = s \<and> two_step e op Confirm_it s = s)"
    by (cases op)
      (simp_all add: reset_history_click_def save_initial_click_def reset_pool_click_def)
  show ?thesis using flag only rest eff by blast
qed

theorem two_step_confirmation_witness:
  "two_step read_write Pool_reset First stocked_app = stocked_app\<lparr>reset_confirmed := True\<rparr>
   \<and> two_step read_write Pool_reset Cancel (stocked_app\<lparr>reset_confirmed := True\<rparr>) =
       stocked_app\<lparr>reset_confirmed := False\<rparr>
   \<and> two_step read_write Pool_reset Confirm_it stocked_app = stocked_app
   \<and> order_pool (two_step read_write Pool_reset Confirm_it (stocked_app\<lparr>reset_confirmed := True\<rparr>))
       = empty_order_pool"
proof -
  have n: "\<not> pending Pool_reset stocked_app"
    by (simp add: stocked_app_def blank_app_def)
  have p: "pending Pool_reset (stocked_app\<lparr>reset_confirmed := True\<rparr>)"
    by simp
  show ?thesis
    using two_step_confirmation [of Pool_reset stocked_app read_write First]
      two_step_confirmation [of Pool_reset "stocked_app\<lparr>reset_confirmed := True\<rparr>" read_write Cancel]
      n p
    by simp
qed

text \<open>
  Claim C1 says that a confirmed ledger reset leaves the order pool's snapshot file
  untouched. The code does otherwise: its \<open>file_path\<close> is \<open>ORDER_POOL_FILE\<close>, so
  whenever that file can be written the confirming click replaces the snapshot by an
  empty array, which is what the next load of the order pool then returns. (The winners
  file gets its empty array from the call of \<open>save_winners\<close> that follows.)
\<close>

theorem ledger_reset_overwrites_pool_snapshot:
  assumes "reset_history_confirmed s" and "writable e ORDER_POOL_FILE"
  shows "disk (reset_history_click e Confirm_it s) ORDER_POOL_FILE = Holds (JArray [])
         \<and> load_initial_order_pool (disk (reset_history_click e Confirm_it s)) = JArray []
         \<and> (writable e WINNERS_FILE \<longrightarrow>
              disk (reset_history_click e Confirm_it s) WINNERS_FILE = Holds (JArray []))"
  using assms files_differ
  by (simp add: reset_history_click_def confirm_reset_history_def reset_history_files_def
      save_winners_def write_json_def read_json_def load_initial_order_pool_def Let_def)

theorem ledger_reset_overwrites_pool_snapshot_witness:
  "load_initial_order_pool (disk (stocked_app\<lparr>reset_history_confirmed := True\<rparr>)) =
     JObject [(douyin, [''D2023001''])]
   \<and> load_initial_order_pool
       (disk (reset_history_click read_write Confirm_it
          (stocked_app\<lparr>reset_history_confirmed := True\<rparr>))) = JArray []"
proof -
  have p: "reset_history_confirmed (stocked_app\<lparr>reset_history_confirmed := True\<rparr>)"
    by simp
  have w: "writable read_write ORDER_POOL_FILE"
    by (simp add: read_write_def)
  have before: "load_initial_order_pool (disk (stocked_app\<lparr>reset_history_confirmed := True\<rparr>)) =
     JObject [(douyin, [''D2023001''])]"
    by (simp add: stocked_app_def load_initial_order_pool_def read_json_def)
  show ?thesis
    using ledger_reset_overwrites_pool_snapshot [OF p w] before by simp
qed

text \<open>
  Claim C2 says that after a confirmed pool reset a load of the snapshot returns the
  empty pool. The code writes the empty pool to \<open>initial_order_pool.json\<close> under the
  working directory, while the load reads \<open>ORDER_POOL_FILE\<close>: whenever the two paths
  differ the snapshot is left as it was, and the load returns the old pool although the
  pool in memory is the empty one.
\<close>

theorem pool_reset_misses_snapshot:
  assumes "reset_confirmed s"
    and "path_join (cwd e) ''initial_order_pool.json'' \<noteq> ORDER_POOL_FILE"
  shows "order_pool (reset_pool_click e Confirm_it s) = empty_order_pool
         \<and> disk (reset_pool_click e Confirm_it s) ORDER_POOL_FILE = disk s ORDER_POOL_FILE
         \<and> load_initial_order_pool (disk (reset_pool_click e Confirm_it s)) =
             load_initial_order_pool (disk s)"
  using assms
  by (auto simp: reset_pool_click_def confirm_reset_pool_def reset_pool_files_def
      write_json_def read_json_def load_initial_order_pool_def Let_def)

theorem pool_reset_misses_snapshot_witness:
  "order_pool (reset_pool_click read_write Confirm_it (stocked_app\<lparr>reset_confirmed := True\<rparr>)) =
     empty_order_pool
   \<and> load_initial_order_pool
       (disk (reset_pool_click read_write Confirm_it (stocked_app\<lparr>reset_confirmed := True\<rparr>))) =
     JObject [(douyin, [''D2023001''])]
   \<and> JObject [(douyin, [''D2023001''])] \<noteq> JObject empty_order_pool"
proof -
  have p: "reset_confirmed (stocked_app\<lparr>reset_confirmed := True\<rparr>)"
    by simp
  have c: "path_join (cwd read_write) ''initial_order_pool.json'' \<noteq> ORDER_POOL_FILE"
    by (simp add: read_write_def ORDER_POOL_FILE_def path_join_def PERSIST_DIR_def)
  have before: "load_initial_order_pool (disk (stocked_app\<lparr>reset_confirmed := True\<rparr>)) =
     JObject [(douyin, [''D2023001''])]"
    by (simp add: stocked_app_def load_initial_order_pool_def read_json_def)
  show ?thesis
    using pool_reset_misses_snapshot [OF p c] before
    by (simp add: empty_order_pool_def)
qed

text \<open>
  When the working directory is the persistence directory and the snapshot can be
  written, the round trip of the pool reset does hold.
\<close>

lemma pool_reset_round_trip:
  assumes "reset_confirmed s" and "cwd e = PERSIST_DIR" and "writable e ORDER_POOL_FILE"
  shows "order_pool (reset_pool_click e Confirm_it s) = empty_order_pool
         \<and> load_initial_order_pool (disk (reset_pool_click e Confirm_it s)) =
             JObject empty_order_pool"
  using assms
  by (simp add: reset_pool_click_def confirm_reset_pool_def reset_pool_files_def
      write_json_def read_json_def load_initial_order_pool_def Let_def ORDER_POOL_FILE_def)

subsection \<open>Malformed lines of a text import\<close>

lemma concat_code_points: "concat (code_points s) = s"
  by (induction s) (auto split: list.splits)

lemma strip_subset: "set (strip s) \<subseteq> set s"
proof
  fix c assume "c \<in> set (strip s)"
  then obtain w
    where w: "w \<in> set (rev (dropWhile is_space (rev (dropWhile is_space (code_points s)))))"
    and c: "c \<in> set w"
    by (auto simp: strip_def)
  have "w \<in> set (dropWhile is_space (code_points s))"
    using w set_dropWhileD [of w is_space "rev (dropWhile is_space (code_points s))"] by simp
  then have "w \<in> set (code_points s)"
    by (rule set_dropWhileD)
  then have "c \<in> set (concat (code_points s))"
    using c by auto
  then show "c \<in> set s"
    by (simp add: concat_code_points)
qed

lemma split_first_no_sep:
  assumes "c \<notin> set s"
  shows "split_first c s = [s]"
proof -
  have "dropWhile (\<lambda>x. x \<noteq> c) s = []"
    using assms by (auto simp: dropWhile_eq_Nil_conv)
  then show ?thesis by (simp only: split_first_def list.case)
qed

lemma parse_lines_append: "parse_lines (a @ b) = parse_lines a @ parse_lines b"
  by (induction a) (auto simp: Let_def split: list.splits)

text \<open>
  Claim C9 says that every malformed line of a text import is counted in the error
  tally. The code does otherwise for a line without a comma: the handler's loop appends
  no pair for it, so \<open>process_orders\<close> receives the same pairs as if the line were not
  there and no tally can count it. The lines around it are still imported.
\<close>

theorem comma_less_line_not_counted:
  assumes "CHR '','' \<notin> set line"
  shows "parse_lines (before @ [line] @ after) = parse_lines before @ parse_lines after
         \<and> parse_lines (before @ [line] @ after) = parse_lines (before @ after)"
proof -
  have "CHR '','' \<notin> set (strip line)"
    using assms strip_subset by blast
  then have "split_first CHR '','' (strip line) = [strip line]"
    by (rule split_first_no_sep)
  then have one: "parse_lines [line] = []"
    by (simp add: Let_def)
  have "parse_lines (before @ [line] @ after) =
      parse_lines before @ parse_lines [line] @ parse_lines after"
    by (simp only: parse_lines_append)
  then show ?thesis
    by (simp only: one parse_lines_append append_Nil simp_thms)
qed

lemma mixed_lines:
  "strip mixed_text \<noteq> []
   \<and> split_char (CHR 0x0A) (strip mixed_text) = [''A,1''] @ [''bad line''] @ [''B,2'']"
  by (simp add: mixed_text_def strip_def is_space_def whitespace_def is_continuation_def)

lemma good_lines: "parse_lines ([''A,1''] @ [''B,2'']) = [(''A'', ''1''), (''B'', ''2'')]"
  by (simp add: strip_def is_space_def whitespace_def is_continuation_def split_first_def Let_def)

theorem comma_less_line_not_counted_witness:
  "import_text_click Append_mode mixed_text blank_app =
     (blank_app\<lparr>order_pool := [(''A'', [''1'']), (''B'', [''2''])]\<rparr>,
      [Import_succeeded, Import_stats 2 0 0, Pool_summary 2 2])"
proof -
  have c: "CHR '','' \<notin> set ''bad line''"
    by simp
  have e1: "split_char (CHR 0x0A) (strip mixed_text) = [''A,1''] @ [''bad line''] @ [''B,2'']"
    using mixed_lines by (rule conjunct2)
  have e2: "parse_lines ([''A,1''] @ [''bad line''] @ [''B,2'']) = parse_lines ([''A,1''] @ [''B,2''])"
    using comma_less_line_not_counted [OF c, of "[''A,1'']" "[''B,2'']"] by (rule conjunct2)
  have pairs: "parse_lines (split_char (CHR 0x0A) (strip mixed_text)) = [(''A'', ''1''), (''B'', ''2'')]"
    by (simp only: e1 e2 good_lines)
  have ne: "strip mixed_text \<noteq> []"
    using mixed_lines by (rule conjunct1)
  show ?thesis
    using ne
    by (simp add: import_text_click_def pairs process_orders_def swap_guard_def initial_tally_def
        blank_app_def pool_get_def total_orders_def Let_def)
qed

end
